theory Spec2Isabelle
  imports Main "HOL-Library.AList"
begin

section \<open>Data model\<close>

text \<open>
  Modelled from the spec: the type declarations \<^verbatim>\<open>ConfigRoute\<close> and \<^verbatim>\<open>RouteManifest\<close>
  (module \<^verbatim>\<open>../config/routes\<close>) are not among the sources. A route has an \<^verbatim>\<open>id\<close>, an
  optional \<^verbatim>\<open>parentId\<close> (\<open>None\<close> is JavaScript's \<^verbatim>\<open>undefined\<close>) and opaque payload, here
  the route's URL \<^verbatim>\<open>path\<close>. The field \<^verbatim>\<open>id\<close> is written \<open>id'\<close>, since \<open>id\<close> is the identity
  function of HOL.
\<close>

record ConfigRoute =
  id' :: string
  parentId :: "string option"
  path :: "string option"

text \<open>
  Modelled from the spec: a \<^verbatim>\<open>RouteManifest\<close> is a mapping from route id to route whose
  order matters. It is the list of the object's properties, key and value, in the order
  in which \<^verbatim>\<open>for (let id in routes)\<close> visits them; for the keys of a manifest (route ids,
  which are not array indices) that is the order of insertion. \<^verbatim>\<open>routes[id]\<close> is
  \<open>map_of rts id\<close>. The keys of an object are distinct, which the predicate
  \<open>well_formed\<close> below requires where a property depends on it.
\<close>

type_synonym RouteManifest = "(string \<times> ConfigRoute) list"

text \<open>
  The errors of the program. \<open>InvariantFailed\<close> carries the message of the failed
  \<^verbatim>\<open>invariant\<close> call (the spec's MissingRoute condition), \<open>ProcessExit\<close> the status of
  \<^verbatim>\<open>process.exit\<close>, and \<open>Rejected\<close> the reason with which a promise of an external
  operation (\<^verbatim>\<open>fse.remove\<close>, \<^verbatim>\<open>vite.build\<close>) is rejected.
\<close>

datatype error = InvariantFailed string | ProcessExit nat | Rejected string

text \<open>
  Modelled from the spec: the helper \<^verbatim>\<open>invariant\<close> (module \<^verbatim>\<open>../invariant\<close>) is not among
  the sources. It fails with the given message when its first argument is missing, and
  otherwise lets the program go on with the value.
\<close>

definition invariant :: "'a option \<Rightarrow> string \<Rightarrow> error + 'a" where
  "invariant v message = (case v of None \<Rightarrow> Inl (InvariantFailed message) | Some x \<Rightarrow> Inr x)"

section \<open>Leaf routes\<close>

text \<open>
  The first loop of \<^verbatim>\<open>getLeafRoutes\<close>. \<^verbatim>\<open>for (let id in routes)\<close> with \<^verbatim>\<open>routes[id]\<close> in its
  body visits the properties of the manifest, key and route, one after the other. Every
  \<^verbatim>\<open>parentId\<close> that is a string (the empty string too) is added to the set \<^verbatim>\<open>parentIds\<close>.
\<close>

fun collectParentIds :: "RouteManifest \<Rightarrow> string set \<Rightarrow> string set" where
  "collectParentIds [] parentIds = parentIds"
| "collectParentIds ((k, r) # rest) parentIds =
     (case parentId r of
        Some p \<Rightarrow> collectParentIds rest (insert p parentIds)
      | None \<Rightarrow> collectParentIds rest parentIds)"

text \<open>
  The second loop: the routes whose key is not in \<^verbatim>\<open>parentIds\<close> are pushed onto
  \<^verbatim>\<open>leafRoutes\<close>, in the order of the manifest.
\<close>

fun pushLeafRoutes :: "RouteManifest \<Rightarrow> string set \<Rightarrow> ConfigRoute list \<Rightarrow> ConfigRoute list" where
  "pushLeafRoutes [] parentIds leafRoutes = leafRoutes"
| "pushLeafRoutes ((k, r) # rest) parentIds leafRoutes =
     (if k \<notin> parentIds then pushLeafRoutes rest parentIds (leafRoutes @ [r])
      else pushLeafRoutes rest parentIds leafRoutes)"

definition getLeafRoutes :: "RouteManifest \<Rightarrow> ConfigRoute list" where
  "getLeafRoutes rts = pushLeafRoutes rts (collectParentIds rts {}) []"

section \<open>Match chains\<close>

text \<open>
  The loop of \<^verbatim>\<open>getRouteMatches\<close>. \<^verbatim>\<open>while (currentRouteId)\<close> stops at \<^verbatim>\<open>undefined\<close> and
  at the empty string, which is falsy as well. The loop runs forever on a manifest whose
  parent links form a cycle, so it is a partial function: \<open>None\<close> is "does not return".
\<close>

partial_function (option) walkParents ::
  "RouteManifest \<Rightarrow> string option \<Rightarrow> ConfigRoute list \<Rightarrow> (error + ConfigRoute list) option" where
  "walkParents rts currentRouteId result =
     (case currentRouteId of
        None \<Rightarrow> Some (Inr result)
      | Some c \<Rightarrow>
          if c = [] then Some (Inr result)
          else (case invariant (map_of rts c) (''Missing route for '' @ c) of
                  Inl e \<Rightarrow> Some (Inl e)
                | Inr r \<Rightarrow> walkParents rts (parentId r) (result @ [r])))"

declare walkParents.simps [code]

definition getRouteMatches :: "RouteManifest \<Rightarrow> string \<Rightarrow> (error + ConfigRoute list) option" where
  "getRouteMatches rts routeId = map_option (map_sum (\<lambda>e. e) rev) (walkParents rts (Some routeId) [])"

section \<open>Bundle assignment\<close>

text \<open>
  Modelled from the spec: the type declarations \<^verbatim>\<open>ServerBuildConfig\<close> and
  \<^verbatim>\<open>ResolvedRemixVitePluginConfig\<close> (module \<^verbatim>\<open>./plugin\<close>) are not among the sources. A
  server build configuration is a route manifest and an output directory; the resolved
  plugin configuration has both fields as well, the project root and the optional
  classification function \<^verbatim>\<open>serverBundleDirectory\<close>, which is called with a leaf route and
  its matches.
\<close>

record ServerBuildConfig =
  routes :: RouteManifest
  serverBuildDirectory :: string

record ResolvedRemixVitePluginConfig = ServerBuildConfig +
  rootDirectory :: string
  serverBundleDirectory :: "(ConfigRoute \<Rightarrow> ConfigRoute list \<Rightarrow> string) option"

text \<open>
  The functions of Node's \<^verbatim>\<open>path\<close> module that the program calls. They belong to the
  platform (POSIX or Windows), so the program is modelled over any implementation of
  them.
\<close>

record NodePath =
  join :: "string \<Rightarrow> string \<Rightarrow> string"
  relative :: "string \<Rightarrow> string \<Rightarrow> string"
  isAbsolute :: "string \<Rightarrow> bool"

text \<open>
  The inner loop of \<^verbatim>\<open>getServerBundles\<close>: \<^verbatim>\<open>serverBuildConfig.routes[match.id] = match\<close> for
  every match. Assigning to a property replaces its value where it stands or adds the
  property at the end, which is \<open>AList.update\<close>.
\<close>

fun mergeMatches :: "RouteManifest \<Rightarrow> ConfigRoute list \<Rightarrow> RouteManifest" where
  "mergeMatches rs [] = rs"
| "mergeMatches rs (match # rest) = mergeMatches (AList.update (id' match) match rs) rest"

text \<open>
  The outer loop, over the leaf routes. The \<^verbatim>\<open>Map\<close> \<^verbatim>\<open>serverBundles\<close> is the list of its
  entries in insertion order. A failed invariant of \<^verbatim>\<open>getRouteMatches\<close> ends the loop
  with the error, and a walk that does not return makes the loop not return.
\<close>

fun assignLeaves ::
  "NodePath \<Rightarrow> RouteManifest \<Rightarrow> string \<Rightarrow> (ConfigRoute \<Rightarrow> ConfigRoute list \<Rightarrow> string) \<Rightarrow>
   ConfigRoute list \<Rightarrow> (string \<times> ServerBuildConfig) list \<Rightarrow>
   (error + (string \<times> ServerBuildConfig) list) option" where
  "assignLeaves np rts dir getServerBundleDirectory [] serverBundles = Some (Inr serverBundles)"
| "assignLeaves np rts dir getServerBundleDirectory (route # rest) serverBundles =
     (case getRouteMatches rts (id' route) of
        None \<Rightarrow> None
      | Some (Inl e) \<Rightarrow> Some (Inl e)
      | Some (Inr matches) \<Rightarrow>
          (let bundleDirectory = join np dir (getServerBundleDirectory route matches);
               serverBuildConfig =
                 (case map_of serverBundles bundleDirectory of
                    Some c \<Rightarrow> c
                  | None \<Rightarrow> \<lparr>routes = [], serverBuildDirectory = bundleDirectory\<rparr>)
           in assignLeaves np rts dir getServerBundleDirectory rest
                (AList.update bundleDirectory
                   (serverBuildConfig\<lparr>routes := mergeMatches (routes serverBuildConfig) matches\<rparr>)
                   serverBundles)))"

definition getServerBundles ::
  "NodePath \<Rightarrow> ResolvedRemixVitePluginConfig \<Rightarrow> (error + ServerBuildConfig list) option" where
  "getServerBundles np pluginConfig =
     (case serverBundleDirectory pluginConfig of
        None \<Rightarrow>
          Some (Inr [\<lparr>routes = routes pluginConfig,
                      serverBuildDirectory = serverBuildDirectory pluginConfig\<rparr>])
      | Some getServerBundleDirectory \<Rightarrow>
          map_option (map_sum (\<lambda>e. e) (map snd))
            (assignLeaves np (routes pluginConfig) (serverBuildDirectory pluginConfig)
               getServerBundleDirectory (getLeafRoutes (routes pluginConfig)) []))"

section \<open>The output directory guard\<close>

text \<open>
  The part of Vite's resolved configuration that the program reads:
  \<^verbatim>\<open>viteConfig.build.emptyOutDir\<close> (\<open>None\<close> when it is not set) and the plugin's resolved
  configuration under \<^verbatim>\<open>__remixPluginResolvedConfig\<close>.
\<close>

record ViteResolvedConfig =
  emptyOutDir :: "bool option"
  remixPluginResolvedConfig :: "ResolvedRemixVitePluginConfig option"

text \<open>
  The external operations. \<open>fse_remove w d\<close> is the reason with which \<^verbatim>\<open>fse.remove(d)\<close> is
  rejected, if it is. \<open>vite_build w c\<close> is the time at which the promise of \<^verbatim>\<open>vite.build\<close>
  settles, for the client build (\<open>None\<close>) or the build of a server bundle, and the reason
  of its rejection, if it is rejected. The options that \<^verbatim>\<open>build\<close> hands to \<^verbatim>\<open>vite.build\<close>
  unchanged are part of the world.
\<close>

record World =
  fse_remove :: "string \<Rightarrow> string option"
  vite_build :: "ServerBuildConfig option \<Rightarrow> nat \<times> string option"

text \<open>
  What the build does to the outside, in the order in which it happens: a finished call
  of \<^verbatim>\<open>fse.remove\<close> with its outcome, a call of \<^verbatim>\<open>vite.build\<close>, and the settling of such a
  call as far as the build waits for it.
\<close>

datatype event =
  Remove string "string option"
| ViteBuild "ServerBuildConfig option"
| Settled "ServerBuildConfig option" "string option"

definition startsWith :: "string \<Rightarrow> string \<Rightarrow> bool" where
  "startsWith s searchString = (take (length searchString) s = searchString)"

definition isWithinRoot :: "NodePath \<Rightarrow> ResolvedRemixVitePluginConfig \<Rightarrow> bool" where
  "isWithinRoot np pluginConfig =
     (let relativePath = relative np (rootDirectory pluginConfig) (serverBuildDirectory pluginConfig)
      in \<not> startsWith relativePath ''..'' \<and> \<not> isAbsolute np relativePath)"

definition cleanServerBuildDirectory ::
  "NodePath \<Rightarrow> World \<Rightarrow> ViteResolvedConfig \<Rightarrow> ResolvedRemixVitePluginConfig \<Rightarrow>
   event list \<times> (error + unit)" where
  "cleanServerBuildDirectory np w viteConfig pluginConfig =
     (if (case emptyOutDir viteConfig of Some b \<Rightarrow> b | None \<Rightarrow> isWithinRoot np pluginConfig)
      then (case fse_remove w (serverBuildDirectory pluginConfig) of
              None \<Rightarrow> ([Remove (serverBuildDirectory pluginConfig) None], Inr ())
            | Some e \<Rightarrow> ([Remove (serverBuildDirectory pluginConfig) (Some e)], Inl (Rejected e)))
      else ([], Inr ()))"

section \<open>The build\<close>

text \<open>
  \<^verbatim>\<open>await viteBuild()\<close>: the client build is started and the build waits until it has
  settled.
\<close>

definition viteBuildClient :: "World \<Rightarrow> event list \<times> (error + unit)" where
  "viteBuildClient w =
     (case snd (vite_build w None) of
        None \<Rightarrow> ([ViteBuild None, Settled None None], Inr ())
      | Some e \<Rightarrow> ([ViteBuild None, Settled None (Some e)], Inl (Rejected e)))"

text \<open>
  \<^verbatim>\<open>await Promise.all(...)\<close> over promises that settle in the given order: the promise of
  \<^verbatim>\<open>Promise.all\<close> is rejected when the first of them is rejected, with that reason, and is
  fulfilled when all of them are fulfilled. What settles after a rejection happens
  after the waiting build has gone on with the error.
\<close>

fun awaitSettled :: "(ServerBuildConfig \<times> string option) list \<Rightarrow> event list \<times> (error + unit)" where
  "awaitSettled [] = ([], Inr ())"
| "awaitSettled ((b, Some e) # later) = ([Settled (Some b) (Some e)], Inl (Rejected e))"
| "awaitSettled ((b, None) # later) =
     (case awaitSettled later of (evs, res) \<Rightarrow> (Settled (Some b) None # evs, res))"

text \<open>
  \<^verbatim>\<open>serverBundles.map(viteBuild)\<close> starts the builds of all bundles, in the order of the
  list; they settle in the order of their times (builds of equal time in the order in
  which they were started).
\<close>

definition settleOrder :: "World \<Rightarrow> ServerBuildConfig list \<Rightarrow> (ServerBuildConfig \<times> string option) list" where
  "settleOrder w serverBundles =
     map (\<lambda>b. (b, snd (vite_build w (Some b))))
       (sort_key (\<lambda>b. fst (vite_build w (Some b))) serverBundles)"

definition viteBuildServers :: "World \<Rightarrow> ServerBuildConfig list \<Rightarrow> event list \<times> (error + unit)" where
  "viteBuildServers w serverBundles =
     (case awaitSettled (settleOrder w serverBundles) of
        (evs, res) \<Rightarrow> (map (\<lambda>b. ViteBuild (Some b)) serverBundles @ evs, res))"

text \<open>
  \<^verbatim>\<open>extractRemixPluginConfig\<close>, after \<^verbatim>\<open>vite.resolveConfig\<close> has returned Vite's resolved
  configuration: the plugin's configuration is read from it, and the process ends with
  status 1 when there is none.
\<close>

definition extractRemixPluginConfig ::
  "ViteResolvedConfig \<Rightarrow> error + ResolvedRemixVitePluginConfig" where
  "extractRemixPluginConfig viteConfig =
     (case remixPluginResolvedConfig viteConfig of
        None \<Rightarrow> Inl (ProcessExit 1)
      | Some pluginConfig \<Rightarrow> Inr pluginConfig)"

text \<open>
  \<^verbatim>\<open>build\<close>. Its arguments \<^verbatim>\<open>root\<close> and the build options (among them its own \<^verbatim>\<open>emptyOutDir\<close>)
  only go to Vite, to \<^verbatim>\<open>resolveConfig\<close> and to \<^verbatim>\<open>vite.build\<close>; here Vite's resolved
  configuration is the argument. The result is the list of events up to the moment at
  which the promise of \<^verbatim>\<open>build\<close> settles, and \<open>Inr ()\<close> when it is fulfilled or \<open>Inl\<close> the
  error with which it is rejected (or with which the process exits); \<open>None\<close> when it never
  settles.
\<close>

definition build :: "NodePath \<Rightarrow> World \<Rightarrow> ViteResolvedConfig \<Rightarrow> (event list \<times> (error + unit)) option" where
  "build np w viteConfig =
     (case extractRemixPluginConfig viteConfig of
        Inl e \<Rightarrow> Some ([], Inl e)
      | Inr pluginConfig \<Rightarrow>
          (case cleanServerBuildDirectory np w viteConfig pluginConfig of
             (evs1, Inl e) \<Rightarrow> Some (evs1, Inl e)
           | (evs1, Inr u) \<Rightarrow>
               (case viteBuildClient w of
                  (evs2, Inl e) \<Rightarrow> Some (evs1 @ evs2, Inl e)
                | (evs2, Inr u) \<Rightarrow>
                    (case getServerBundles np pluginConfig of
                       None \<Rightarrow> None
                     | Some (Inl e) \<Rightarrow> Some (evs1 @ evs2, Inl e)
                     | Some (Inr serverBundles) \<Rightarrow>
                         (case viteBuildServers w serverBundles of
                            (evs3, res) \<Rightarrow> Some (evs1 @ evs2 @ evs3, res))))))"

section \<open>Notions of the specification\<close>

text \<open>
  The depth of a route: a route without parent has depth 0, any other route the depth
  of its parent plus one.
\<close>

inductive has_depth :: "RouteManifest \<Rightarrow> string \<Rightarrow> nat \<Rightarrow> bool" where
  root: "map_of rts k = Some r \<Longrightarrow> parentId r = None \<Longrightarrow> has_depth rts k 0"
| child: "map_of rts k = Some r \<Longrightarrow> parentId r = Some p \<Longrightarrow> has_depth rts p d \<Longrightarrow>
          has_depth rts k (Suc d)"






text \<open>
  The grouping that the specification describes for the Bundle Assigner. The chain of a
  leaf is what \<^verbatim>\<open>getRouteMatches\<close> returns for it; its bundle key is the default output
  directory joined with what the classification function returns; the keys are taken in
  the order of their first occurrence; and the bundle of a key merges the chains of the
  leaves that have this key.
\<close>

definition chainOf :: "RouteManifest \<Rightarrow> ConfigRoute \<Rightarrow> ConfigRoute list" where
  "chainOf rts leaf = (case getRouteMatches rts (id' leaf) of Some (Inr ms) \<Rightarrow> ms | _ \<Rightarrow> [])"

definition bundleKey ::
  "NodePath \<Rightarrow> string \<Rightarrow> (ConfigRoute \<Rightarrow> ConfigRoute list \<Rightarrow> string) \<Rightarrow> RouteManifest \<Rightarrow>
   ConfigRoute \<Rightarrow> string" where
  "bundleKey np dir f rts leaf = join np dir (f leaf (chainOf rts leaf))"

fun firstOccurrences :: "'a list \<Rightarrow> 'a list" where
  "firstOccurrences [] = []"
| "firstOccurrences (x # xs) = x # filter (\<lambda>y. y \<noteq> x) (firstOccurrences xs)"

definition bundleFor ::
  "NodePath \<Rightarrow> string \<Rightarrow> (ConfigRoute \<Rightarrow> ConfigRoute list \<Rightarrow> string) \<Rightarrow> RouteManifest \<Rightarrow>
   ConfigRoute list \<Rightarrow> string \<Rightarrow> ServerBuildConfig" where
  "bundleFor np dir f rts leaves key =
     \<lparr>routes = mergeMatches []
                 (concat (map (chainOf rts) (filter (\<lambda>l. bundleKey np dir f rts l = key) leaves))),
      serverBuildDirectory = key\<rparr>"

definition groupedBundles ::
  "NodePath \<Rightarrow> string \<Rightarrow> (ConfigRoute \<Rightarrow> ConfigRoute list \<Rightarrow> string) \<Rightarrow> RouteManifest \<Rightarrow>
   ConfigRoute list \<Rightarrow> ServerBuildConfig list" where
  "groupedBundles np dir f rts leaves =
     map (bundleFor np dir f rts leaves) (firstOccurrences (map (bundleKey np dir f rts) leaves))"

text \<open>The phase of the build to which an event belongs.\<close>

fun phase :: "event \<Rightarrow> nat" where
  "phase (Remove d outcome) = 1"
| "phase (ViteBuild None) = 2"
| "phase (Settled None outcome) = 2"
| "phase (ViteBuild (Some b)) = 3"
| "phase (Settled (Some b) outcome) = 3"

text \<open>
  The \<^verbatim>\<open>Map\<close> that the grouping of the specification amounts to: one entry for every key,
  in the order of first occurrence.
\<close>

definition tabulated ::
  "NodePath \<Rightarrow> string \<Rightarrow> (ConfigRoute \<Rightarrow> ConfigRoute list \<Rightarrow> string) \<Rightarrow> RouteManifest \<Rightarrow>
   ConfigRoute list \<Rightarrow> (string \<times> ServerBuildConfig) list" where
  "tabulated np dir f rts leaves =
     map (\<lambda>k. (k, bundleFor np dir f rts leaves k))
       (firstOccurrences (map (bundleKey np dir f rts) leaves))"

section \<open>Node's path functions on POSIX\<close>

text \<open>
  A model of \<^verbatim>\<open>path.join\<close>, \<^verbatim>\<open>path.relative\<close> and \<^verbatim>\<open>path.isAbsolute\<close> of Node on POSIX, after
  their documentation, for the examples below: \<^verbatim>\<open>join\<close> puts a slash between its non-empty
  arguments and normalises the result (empty and \<^verbatim>\<open>.\<close> segments go, a \<^verbatim>\<open>..\<close> segment takes
  the segment before it away, a trailing slash stays); \<^verbatim>\<open>relative\<close>, here for absolute
  paths, climbs out of what is left of the first path after the common prefix and
  descends into what is left of the second.
\<close>

fun splitSlash :: "string \<Rightarrow> string list" where
  "splitSlash [] = [[]]"
| "splitSlash (c # cs) =
     (if c = CHR ''/'' then [] # splitSlash cs
      else (case splitSlash cs of [] \<Rightarrow> [[c]] | s # ss \<Rightarrow> (c # s) # ss))"

fun joinSlash :: "string list \<Rightarrow> string" where
  "joinSlash [] = []"
| "joinSlash [s] = s"
| "joinSlash (s # t # ss) = s @ ''/'' @ joinSlash (t # ss)"

fun normalizeSegments :: "bool \<Rightarrow> string list \<Rightarrow> string list \<Rightarrow> string list" where
  "normalizeSegments allowAboveRoot [] res = rev res"
| "normalizeSegments allowAboveRoot (s # ss) res =
     (if s = [] \<or> s = ''.'' then normalizeSegments allowAboveRoot ss res
      else if s = ''..'' then
        (case res of
           [] \<Rightarrow> normalizeSegments allowAboveRoot ss (if allowAboveRoot then [''..''] else [])
         | t # ts \<Rightarrow>
             if t = ''..'' then normalizeSegments allowAboveRoot ss (''..'' # res)
             else normalizeSegments allowAboveRoot ss ts)
      else normalizeSegments allowAboveRoot ss (s # res))"

definition posix_isAbsolute :: "string \<Rightarrow> bool" where
  "posix_isAbsolute p = (case p of [] \<Rightarrow> False | c # cs \<Rightarrow> c = CHR ''/'')"

definition posix_normalize :: "string \<Rightarrow> string" where
  "posix_normalize p =
     (if p = [] then ''.''
      else let isAbs = posix_isAbsolute p;
               trailingSeparator = (last p = CHR ''/'');
               body = joinSlash (normalizeSegments (\<not> isAbs) (splitSlash p) [])
           in if body = [] then (if isAbs then ''/'' else if trailingSeparator then ''./'' else ''.'')
              else (if isAbs then ''/'' else []) @ body @ (if trailingSeparator then ''/'' else []))"

definition posix_join :: "string \<Rightarrow> string \<Rightarrow> string" where
  "posix_join a b =
     (let joined = joinSlash (filter (\<lambda>s. s \<noteq> []) [a, b])
      in if joined = [] then ''.'' else posix_normalize joined)"

fun dropCommon :: "string list \<Rightarrow> string list \<Rightarrow> string list \<times> string list" where
  "dropCommon (x # xs) (y # ys) = (if x = y then dropCommon xs ys else (x # xs, y # ys))"
| "dropCommon xs ys = (xs, ys)"

definition posix_relative :: "string \<Rightarrow> string \<Rightarrow> string" where
  "posix_relative from to =
     (case dropCommon (normalizeSegments False (splitSlash from) [])
                      (normalizeSegments False (splitSlash to) []) of
        (up, down) \<Rightarrow> joinSlash (map (\<lambda>s. ''..'') up @ down))"

definition posix :: NodePath where
  "posix = \<lparr>join = posix_join, relative = posix_relative, isAbsolute = posix_isAbsolute\<rparr>"

section \<open>Example inputs\<close>

text \<open>
  The manifest of the specification's example scenario, a manifest with a route whose
  parent is missing, and one with a route whose \<^verbatim>\<open>parentId\<close> is the empty string.
\<close>

definition mkRoute :: "string \<Rightarrow> string option \<Rightarrow> ConfigRoute" where
  "mkRoute i p = \<lparr>id' = i, parentId = p, path = None\<rparr>"

definition exampleManifest :: RouteManifest where
  "exampleManifest =
     [(''root'', mkRoute ''root'' None),
      (''a'', mkRoute ''a'' (Some ''root'')),
      (''b'', mkRoute ''b'' (Some ''root''))]"

definition brokenManifest :: RouteManifest where
  "brokenManifest = [(''a'', mkRoute ''a'' (Some ''ghost''))]"

definition emptyParentManifest :: RouteManifest where
  "emptyParentManifest = [(''page'', mkRoute ''page'' (Some []))]"

text \<open>
  A manifest with a route two levels below the root, and a classification function that
  sends the first of its two leaves to the directory \<^verbatim>\<open>b\<close> and the second to \<^verbatim>\<open>a\<close>.
\<close>

definition nestedManifest :: RouteManifest where
  "nestedManifest =
     [(''root'', mkRoute ''root'' None),
      (''x'', mkRoute ''x'' (Some ''root'')),
      (''y'', mkRoute ''y'' (Some ''x'')),
      (''z'', mkRoute ''z'' (Some ''root''))]"

definition yApart :: "ConfigRoute \<Rightarrow> ConfigRoute list \<Rightarrow> string" where
  "yApart route matches = (if id' route = ''y'' then ''b'' else ''a'')"

text \<open>
  A project at \<^verbatim>\<open>/app\<close> with a given manifest, server output directory and classification
  function, and Vite configurations around it.
\<close>

definition examplePlugin ::
  "RouteManifest \<Rightarrow> string \<Rightarrow> (ConfigRoute \<Rightarrow> ConfigRoute list \<Rightarrow> string) option \<Rightarrow>
   ResolvedRemixVitePluginConfig" where
  "examplePlugin rts dir f =
     \<lparr>routes = rts, serverBuildDirectory = dir, rootDirectory = ''/app'',
      serverBundleDirectory = f\<rparr>"

definition exampleVite :: "bool option \<Rightarrow> ResolvedRemixVitePluginConfig \<Rightarrow> ViteResolvedConfig" where
  "exampleVite e pluginConfig = \<lparr>emptyOutDir = e, remixPluginResolvedConfig = Some pluginConfig\<rparr>"

text \<open>
  Classification functions: one bundle for each leaf, one bundle for all leaves, a
  directory above the server output directory, and two spellings of one directory.
\<close>

definition byLeaf :: "ConfigRoute \<Rightarrow> ConfigRoute list \<Rightarrow> string" where
  "byLeaf route matches = id' route"


definition escaping :: "ConfigRoute \<Rightarrow> ConfigRoute list \<Rightarrow> string" where
  "escaping route matches = ''../../../etc/'' @ id' route"

definition twoSpellings :: "ConfigRoute \<Rightarrow> ConfigRoute list \<Rightarrow> string" where
  "twoSpellings route matches = (if id' route = ''a'' then ''x'' else ''./x'')"

text \<open>
  A world in which every external operation succeeds, and worlds in which the removal,
  the client build or the builds of both bundles of \<open>byLeaf\<close> are rejected, the build of
  bundle \<^verbatim>\<open>a\<close> at time 1 and that of bundle \<^verbatim>\<open>b\<close> at time 2.
\<close>

definition quietWorld :: World where
  "quietWorld = \<lparr>fse_remove = (\<lambda>d. None), vite_build = (\<lambda>c. (0, None))\<rparr>"

definition lockedWorld :: World where
  "lockedWorld = \<lparr>fse_remove = (\<lambda>d. Some ''EACCES''), vite_build = (\<lambda>c. (0, None))\<rparr>"

definition clientFailsWorld :: World where
  "clientFailsWorld =
     \<lparr>fse_remove = (\<lambda>d. None),
      vite_build = (\<lambda>c. case c of None \<Rightarrow> (0, Some ''client failed'') | Some b \<Rightarrow> (0, None))\<rparr>"

definition bundlesFailWorld :: World where
  "bundlesFailWorld =
     \<lparr>fse_remove = (\<lambda>d. None),
      vite_build = (\<lambda>c. case c of
                            None \<Rightarrow> (0, None)
                          | Some b \<Rightarrow>
                              if serverBuildDirectory b = ''/app/build/server/a''
                              then (1, Some ''bundle a failed'')
                              else (2, Some ''bundle b failed''))\<rparr>"

definition bundleA :: ServerBuildConfig where
  "bundleA =
     \<lparr>routes = [(''root'', mkRoute ''root'' None), (''a'', mkRoute ''a'' (Some ''root''))],
      serverBuildDirectory = ''/app/build/server/a''\<rparr>"

definition bundleB :: ServerBuildConfig where
  "bundleB =
     \<lparr>routes = [(''root'', mkRoute ''root'' None), (''b'', mkRoute ''b'' (Some ''root''))],
      serverBuildDirectory = ''/app/build/server/b''\<rparr>"

section \<open>Leaf routes are the routes that are not referenced\<close>

lemma collectParentIds_eq:
  "collectParentIds rts S = S \<union> {p. \<exists>(k, r) \<in> set rts. parentId r = Some p}"
  by (induction rts S rule: collectParentIds.induct) (auto split: option.splits)

lemma pushLeafRoutes_eq:
  "pushLeafRoutes rts S acc = acc @ map snd (filter (\<lambda>(k, r). k \<notin> S) rts)"
  by (induction rts S acc rule: pushLeafRoutes.induct) auto

lemma getLeafRoutes_filter:
  "getLeafRoutes rts = map snd (filter (\<lambda>(k, r). \<forall>(k', r') \<in> set rts. parentId r' \<noteq> Some k) rts)"
proof -
  have "(\<lambda>(k, r). k \<notin> collectParentIds rts {}) = (\<lambda>(k::string, r::ConfigRoute). \<forall>(k', r') \<in> set rts. parentId r' \<noteq> Some k)"
    by (auto simp: collectParentIds_eq fun_eq_iff)
  then show ?thesis
    by (simp add: getLeafRoutes_def pushLeafRoutes_eq)
qed

section \<open>The parent walk\<close>

lemma walkParents_Some:
  "c \<noteq> [] \<Longrightarrow> map_of rts c = Some r \<Longrightarrow>
   walkParents rts (Some c) acc = walkParents rts (parentId r) (acc @ [r])"
  by (subst walkParents.simps) (simp add: invariant_def)

lemma walkParents_missing:
  "c \<noteq> [] \<Longrightarrow> map_of rts c = None \<Longrightarrow>
   walkParents rts (Some c) acc = Some (Inl (InvariantFailed (''Missing route for '' @ c)))"
  by (subst walkParents.simps) (simp add: invariant_def)

lemma walkParents_falsy:
  "walkParents rts None acc = Some (Inr acc)" "walkParents rts (Some []) acc = Some (Inr acc)"
  by (subst walkParents.simps, simp)+







lemma has_depth_unique: "has_depth rts k d \<Longrightarrow> has_depth rts k d' \<Longrightarrow> d = d'"
proof (induction arbitrary: d' rule: has_depth.induct)
  case (root rts k r)
  then show ?case by (auto elim: has_depth.cases)
next
  case (child rts k r p d)
  from child.prems child.hyps show ?case
    by (cases rule: has_depth.cases) (auto dest: child.IH)
qed















section \<open>The loop over the leaves computes the grouping\<close>

lemma mergeMatches_append: "mergeMatches rs (xs @ ys) = mergeMatches (mergeMatches rs xs) ys"
  by (induction xs arbitrary: rs) auto

lemma set_firstOccurrences: "set (firstOccurrences xs) = set xs"
  by (induction xs) auto

lemma distinct_firstOccurrences: "distinct (firstOccurrences xs)"
  by (induction xs) auto

lemma firstOccurrences_snoc:
  "firstOccurrences (xs @ [x]) = (if x \<in> set xs then firstOccurrences xs else firstOccurrences xs @ [x])"
  by (induction xs) (auto simp: set_firstOccurrences)

lemma update_tabulated:
  "distinct ks \<Longrightarrow>
   AList.update k v (map (\<lambda>x. (x, g x)) ks) =
     (if k \<in> set ks then map (\<lambda>x. (x, if x = k then v else g x)) ks
      else map (\<lambda>x. (x, g x)) ks @ [(k, v)])"
  by (induction ks) auto

lemma map_of_tabulated: "map_of (map (\<lambda>x. (x, g x)) ks) k = (if k \<in> set ks then Some (g k) else None)"
  by (induction ks) auto

lemma assign_step:
  assumes k_def: "k = bundleKey np dir f rts l"
    and cfg_def: "cfg = (case map_of (tabulated np dir f rts pre) k of Some c \<Rightarrow> c
                   | None \<Rightarrow> \<lparr>routes = [], serverBuildDirectory = k\<rparr>)"
  shows "AList.update k (cfg\<lparr>routes := mergeMatches (routes cfg) (chainOf rts l)\<rparr>) (tabulated np dir f rts pre)
         = tabulated np dir f rts (pre @ [l])"
proof -
  let ?keys = "firstOccurrences (map (bundleKey np dir f rts) pre)"
  have other: "bundleFor np dir f rts (pre @ [l]) x = bundleFor np dir f rts pre x" if "x \<noteq> k" for x
    using that by (simp add: bundleFor_def k_def)
  have none: "filter (\<lambda>x. bundleKey np dir f rts x = k) pre = []" if "k \<notin> bundleKey np dir f rts ` set pre"
    using that by (auto simp: filter_empty_conv)
  have new: "cfg\<lparr>routes := mergeMatches (routes cfg) (chainOf rts l)\<rparr> = bundleFor np dir f rts (pre @ [l]) k"
    by (cases "k \<in> bundleKey np dir f rts ` set pre")
       (simp_all add: cfg_def tabulated_def map_of_tabulated set_firstOccurrences bundleFor_def
        mergeMatches_append none, simp_all add: k_def)
  have snoc: "firstOccurrences (map (bundleKey np dir f rts) (pre @ [l])) =
              (if k \<in> set ?keys then ?keys else ?keys @ [k])"
    by (simp add: firstOccurrences_snoc set_firstOccurrences k_def)
  show ?thesis
  proof (cases "k \<in> set ?keys")
    case True
    have "map (\<lambda>x. (x, if x = k then bundleFor np dir f rts (pre @ [l]) k else bundleFor np dir f rts pre x)) ?keys
          = map (\<lambda>x. (x, bundleFor np dir f rts (pre @ [l]) x)) ?keys"
      by (rule map_cong) (auto simp: other)
    with True show ?thesis
      unfolding new tabulated_def snoc
      by (simp add: update_tabulated distinct_firstOccurrences)
  next
    case False
    have "map (\<lambda>x. (x, bundleFor np dir f rts pre x)) ?keys
          = map (\<lambda>x. (x, bundleFor np dir f rts (pre @ [l]) x)) ?keys"
    proof (rule map_cong[OF refl])
      fix x assume "x \<in> set ?keys"
      with False have "x \<noteq> k" by blast
      then show "(x, bundleFor np dir f rts pre x) = (x, bundleFor np dir f rts (pre @ [l]) x)"
        by (simp add: other)
    qed
    with False show ?thesis
      unfolding new tabulated_def snoc
      by (simp add: update_tabulated distinct_firstOccurrences)
  qed
qed

lemma assignLeaves_tabulated:
  assumes "\<forall>l \<in> set rest. \<exists>ms. getRouteMatches rts (id' l) = Some (Inr ms)"
  shows "assignLeaves np rts dir f rest (tabulated np dir f rts pre) = Some (Inr (tabulated np dir f rts (pre @ rest)))"
  using assms
proof (induction rest arbitrary: pre)
  case Nil
  then show ?case by simp
next
  case (Cons l rest)
  then obtain ms where ms: "getRouteMatches rts (id' l) = Some (Inr ms)" by auto
  then have chain: "chainOf rts l = ms" by (simp add: chainOf_def)
  have "assignLeaves np rts dir f (l # rest) (tabulated np dir f rts pre)
        = assignLeaves np rts dir f rest (tabulated np dir f rts (pre @ [l]))"
    using assign_step[OF refl refl, of np dir f rts l pre]
    unfolding bundleKey_def chain
    by (simp add: ms Let_def)
  also have "\<dots> = Some (Inr (tabulated np dir f rts ((pre @ [l]) @ rest)))"
    using Cons.prems by (intro Cons.IH) simp
  finally show ?case by simp
qed

lemma getServerBundles_grouped:
  assumes "serverBundleDirectory cfg = Some f"
    and "\<forall>l \<in> set (getLeafRoutes (routes cfg)). \<exists>ms. getRouteMatches (routes cfg) (id' l) = Some (Inr ms)"
  shows "getServerBundles np cfg =
         Some (Inr (groupedBundles np (serverBuildDirectory cfg) f (routes cfg) (getLeafRoutes (routes cfg))))"
proof -
  have "tabulated np (serverBuildDirectory cfg) f (routes cfg) [] = []"
    by (simp add: tabulated_def)
  with assignLeaves_tabulated[OF assms(2), of np "serverBuildDirectory cfg" f "[]"]
  show ?thesis
    by (simp add: getServerBundles_def assms(1) tabulated_def groupedBundles_def comp_def)
qed

section \<open>Every route of a well-formed manifest lies on the chain of a leaf\<close>











section \<open>Failures and events of the build\<close>



lemma assignLeaves_Inl_origin:
  "assignLeaves np rts dir f leaves acc = Some (Inl e) \<Longrightarrow>
   \<exists>l \<in> set leaves. getRouteMatches rts (id' l) = Some (Inl e)"
proof (induction leaves arbitrary: acc)
  case Nil
  then show ?case by simp
next
  case (Cons x leaves)
  show ?case
  proof (cases "getRouteMatches rts (id' x)")
    case None
    with Cons.prems show ?thesis by simp
  next
    case (Some y)
    show ?thesis
    proof (cases y)
      case (Inl e')
      with Some Cons.prems show ?thesis by simp
    next
      case (Inr ms)
      with Some Cons.prems obtain acc' where "assignLeaves np rts dir f leaves acc' = Some (Inl e)"
        by (auto simp: Let_def)
      from Cons.IH[OF this] show ?thesis by auto
    qed
  qed
qed

lemma getServerBundles_Inl:
  "getServerBundles np cfg = Some (Inl e) \<longleftrightarrow>
   (\<exists>f. serverBundleDirectory cfg = Some f \<and>
     assignLeaves np (routes cfg) (serverBuildDirectory cfg) f (getLeafRoutes (routes cfg)) [] = Some (Inl e))"
proof (cases "serverBundleDirectory cfg")
  case None
  then show ?thesis by (simp add: getServerBundles_def)
next
  case (Some f)
  show ?thesis
  proof (cases "assignLeaves np (routes cfg) (serverBuildDirectory cfg) f (getLeafRoutes (routes cfg)) []")
    case None
    with Some show ?thesis by (simp add: getServerBundles_def)
  next
    case res: (Some y)
    with Some show ?thesis by (cases y) (simp_all add: getServerBundles_def)
  qed
qed

lemma getServerBundles_Inr:
  "getServerBundles np cfg = Some (Inr bs) \<longleftrightarrow>
   (case serverBundleDirectory cfg of
      None \<Rightarrow> bs = [\<lparr>routes = routes cfg, serverBuildDirectory = serverBuildDirectory cfg\<rparr>]
    | Some f \<Rightarrow> \<exists>al. assignLeaves np (routes cfg) (serverBuildDirectory cfg) f (getLeafRoutes (routes cfg)) [] = Some (Inr al) \<and> bs = map snd al)"
proof (cases "serverBundleDirectory cfg")
  case None
  then show ?thesis by (auto simp add: getServerBundles_def)
next
  case (Some f)
  show ?thesis
  proof (cases "assignLeaves np (routes cfg) (serverBuildDirectory cfg) f (getLeafRoutes (routes cfg)) []")
    case None
    with Some show ?thesis by (simp add: getServerBundles_def)
  next
    case res: (Some y)
    with Some show ?thesis by (cases y) (auto simp add: getServerBundles_def)
  qed
qed

lemma assignLeaves_Inr_resolves:
  "assignLeaves np rts dir f leaves acc = Some (Inr al) \<Longrightarrow>
   \<forall>l \<in> set leaves. \<exists>ms. getRouteMatches rts (id' l) = Some (Inr ms)"
proof (induction leaves arbitrary: acc)
  case Nil
  then show ?case by simp
next
  case (Cons x leaves)
  show ?case
  proof (cases "getRouteMatches rts (id' x)")
    case None
    with Cons.prems show ?thesis by simp
  next
    case (Some y)
    show ?thesis
    proof (cases y)
      case (Inl e)
      with Some Cons.prems show ?thesis by simp
    next
      case (Inr ms)
      with Some Cons.prems obtain acc' where "assignLeaves np rts dir f leaves acc' = Some (Inr al)"
        by (auto simp: Let_def)
      from Cons.IH[OF this] Some Inr show ?thesis by simp
    qed
  qed
qed

lemma getServerBundles_Inr_iff:
  assumes "serverBundleDirectory cfg = Some f"
  shows "getServerBundles np cfg = Some (Inr bs) \<longleftrightarrow>
         (\<forall>l \<in> set (getLeafRoutes (routes cfg)).
             \<exists>ms. getRouteMatches (routes cfg) (id' l) = Some (Inr ms)) \<and>
         bs = groupedBundles np (serverBuildDirectory cfg) f (routes cfg) (getLeafRoutes (routes cfg))"
proof
  assume r: "getServerBundles np cfg = Some (Inr bs)"
  then obtain al where
    "assignLeaves np (routes cfg) (serverBuildDirectory cfg) f (getLeafRoutes (routes cfg)) [] = Some (Inr al)"
    by (auto simp: getServerBundles_Inr assms)
  then have res: "\<forall>l \<in> set (getLeafRoutes (routes cfg)).
             \<exists>ms. getRouteMatches (routes cfg) (id' l) = Some (Inr ms)"
    by (rule assignLeaves_Inr_resolves)
  with r getServerBundles_grouped[OF assms res, of np]
  show "(\<forall>l \<in> set (getLeafRoutes (routes cfg)).
             \<exists>ms. getRouteMatches (routes cfg) (id' l) = Some (Inr ms)) \<and>
         bs = groupedBundles np (serverBuildDirectory cfg) f (routes cfg) (getLeafRoutes (routes cfg))"
    by simp
next
  assume "(\<forall>l \<in> set (getLeafRoutes (routes cfg)).
             \<exists>ms. getRouteMatches (routes cfg) (id' l) = Some (Inr ms)) \<and>
         bs = groupedBundles np (serverBuildDirectory cfg) f (routes cfg) (getLeafRoutes (routes cfg))"
  then show "getServerBundles np cfg = Some (Inr bs)"
    using getServerBundles_grouped[OF assms, of np] by simp
qed

lemma clean_cases:
  "cleanServerBuildDirectory np w vc cfg = ([], Inr ()) \<or>
   cleanServerBuildDirectory np w vc cfg = ([Remove (serverBuildDirectory cfg) None], Inr ()) \<or>
   (\<exists>e. cleanServerBuildDirectory np w vc cfg = ([Remove (serverBuildDirectory cfg) (Some e)], Inl (Rejected e)))"
  by (auto simp: cleanServerBuildDirectory_def split: option.splits)

lemma client_cases:
  "viteBuildClient w = ([ViteBuild None, Settled None None], Inr ()) \<or>
   (\<exists>e. viteBuildClient w = ([ViteBuild None, Settled None (Some e)], Inl (Rejected e)))"
  by (auto simp: viteBuildClient_def split: option.splits)

lemma awaitSettled_phase: "\<forall>ev \<in> set (fst (awaitSettled xs)). phase ev = 3"
  by (induction xs rule: awaitSettled.induct) (auto split: prod.splits)

lemma servers_phase: "\<forall>ev \<in> set (fst (viteBuildServers w bs)). phase ev = 3"
  using awaitSettled_phase[of "settleOrder w bs"]
  by (auto simp: viteBuildServers_def split: prod.splits)

lemma awaitSettled_first_failure:
  assumes "\<forall>(b', out) \<in> set ok. out = None"
  shows "awaitSettled (ok @ (b, Some e) # later) =
         (map (\<lambda>(b', out). Settled (Some b') None) ok @ [Settled (Some b) (Some e)], Inl (Rejected e))"
  using assms by (induction ok) auto

lemma awaitSettled_all_fulfilled:
  assumes "\<forall>(b', out) \<in> set xs. out = None"
  shows "awaitSettled xs = (map (\<lambda>(b', out). Settled (Some b') None) xs, Inr ())"
  using assms by (induction xs) auto

lemma settleOrder_split:
  assumes "\<exists>b \<in> set bs. snd (vite_build w (Some b)) \<noteq> None"
  shows "\<exists>ok b e later. settleOrder w bs = ok @ (b, Some e) # later \<and>
           (\<forall>(b', out) \<in> set ok. out = None) \<and> b \<in> set bs \<and>
           snd (vite_build w (Some b)) = Some e \<and>
           (\<forall>b' \<in> set bs. snd (vite_build w (Some b')) \<noteq> None \<longrightarrow>
               fst (vite_build w (Some b)) \<le> fst (vite_build w (Some b')))"
proof -
  let ?t = "\<lambda>b. fst (vite_build w (Some b))"
  let ?sorted = "sort_key ?t bs"
  from assms have "\<exists>b \<in> set ?sorted. snd (vite_build w (Some b)) \<noteq> None" by simp
  from split_list_first_prop[OF this] obtain ys b zs where
    split: "?sorted = ys @ b # zs" and fails: "snd (vite_build w (Some b)) \<noteq> None"
    and before: "\<forall>y \<in> set ys. \<not> snd (vite_build w (Some y)) \<noteq> None" by blast
  from fails obtain e where e: "snd (vite_build w (Some b)) = Some e" by auto
  have "sorted (map ?t ?sorted)" by simp
  with split have later: "\<forall>z \<in> set zs. ?t b \<le> ?t z"
    by (simp add: sorted_append)
  have "set bs = set ?sorted" by simp
  also have "\<dots> = set ys \<union> {b} \<union> set zs" by (simp only: split) simp
  finally have mem: "set bs = set ys \<union> {b} \<union> set zs" .
  have "settleOrder w bs = map (\<lambda>b. (b, snd (vite_build w (Some b)))) ys @ (b, Some e) # map (\<lambda>b. (b, snd (vite_build w (Some b)))) zs"
    by (simp add: settleOrder_def split e)
  moreover have "\<forall>(b', out) \<in> set (map (\<lambda>b. (b, snd (vite_build w (Some b)))) ys). out = None"
    using before by auto
  moreover have "b \<in> set bs" using mem by simp
  moreover have "\<forall>b' \<in> set bs. snd (vite_build w (Some b')) \<noteq> None \<longrightarrow> ?t b \<le> ?t b'"
    using mem before later by auto
  ultimately show ?thesis using e by blast
qed

section \<open>The claims about the route manifest\<close>


lemma example_chain_a:
  "getRouteMatches exampleManifest ''a'' =
   Some (Inr [mkRoute ''root'' None, mkRoute ''a'' (Some ''root'')])"
  by (simp add: getRouteMatches_def walkParents_Some walkParents_falsy exampleManifest_def
      mkRoute_def)

lemma example_chain_b:
  "getRouteMatches exampleManifest ''b'' =
   Some (Inr [mkRoute ''root'' None, mkRoute ''b'' (Some ''root'')])"
  by (simp add: getRouteMatches_def walkParents_Some walkParents_falsy exampleManifest_def
      mkRoute_def)





text \<open>
  Claim C10. For every manifest with a route whose \<^verbatim>\<open>parentId\<close> is the empty string,
  \<^verbatim>\<open>getRouteMatches\<close> on the key of that route returns normally, whether the empty string
  is a key of the manifest or not: the walk ends at that route, which is the whole
  result (and the result is empty when the key itself is the empty string, since the
  walk does not start).
\<close>

theorem C10_empty_parentId_ends_walk:
  "map_of rts k = Some r \<Longrightarrow> parentId r = Some [] \<Longrightarrow>
   getRouteMatches rts k = Some (Inr (if k = [] then [] else [r]))"
proof (cases "k = []")
  case True
  then show ?thesis by (simp add: getRouteMatches_def walkParents_falsy)
next
  case False
  assume "map_of rts k = Some r" and "parentId r = Some []"
  with False have "walkParents rts (Some k) [] = walkParents rts (Some []) [r]"
    by (simp add: walkParents_Some)
  also have "\<dots> = Some (Inr [r])" by (simp add: walkParents_falsy)
  finally show ?thesis using False by (simp add: getRouteMatches_def)
qed

theorem C10_empty_parentId_witness:
  "map_of emptyParentManifest [] = None \<and>
   getRouteMatches emptyParentManifest ''page'' = Some (Inr [mkRoute ''page'' (Some [])])"
proof -
  have "getRouteMatches emptyParentManifest ''page'' =
        Some (Inr (if ''page'' = [] then [] else [mkRoute ''page'' (Some [])]))"
    by (rule C10_empty_parentId_ends_walk) (simp_all add: emptyParentManifest_def mkRoute_def)
  then show ?thesis by (simp add: emptyParentManifest_def)
qed

section \<open>A missing route fails the build\<close>




lemma broken_walk:
  "getRouteMatches brokenManifest ''a'' = Some (Inl (InvariantFailed ''Missing route for ghost''))"
  by (simp add: getRouteMatches_def walkParents_Some walkParents_missing brokenManifest_def mkRoute_def)

lemma broken_leaves: "getLeafRoutes brokenManifest = [mkRoute ''a'' (Some ''ghost'')]"
  by (simp add: getLeafRoutes_filter brokenManifest_def mkRoute_def)

lemma id'_mkRoute: "id' (mkRoute i p) = i"
  by (simp add: mkRoute_def)

lemma exampleVite_sel:
  "remixPluginResolvedConfig (exampleVite e cfg) = Some cfg" "emptyOutDir (exampleVite e cfg) = e"
  by (simp_all add: exampleVite_def)

lemma world_sel:
  "fse_remove quietWorld d = None" "vite_build quietWorld c = (0, None)"
  "fse_remove lockedWorld d = Some ''EACCES''"
  "fse_remove clientFailsWorld d = None" "vite_build clientFailsWorld None = (0, Some ''client failed'')"
  "fse_remove bundlesFailWorld d = None" "vite_build bundlesFailWorld None = (0, None)"
  "vite_build bundlesFailWorld (Some bundleA) = (1, Some ''bundle a failed'')"
  "vite_build bundlesFailWorld (Some bundleB) = (2, Some ''bundle b failed'')"
  by (simp_all add: quietWorld_def lockedWorld_def clientFailsWorld_def bundlesFailWorld_def
      bundleA_def bundleB_def)

lemma example_guard:
  "cleanServerBuildDirectory posix w (exampleVite None (examplePlugin rts ''/app/build/server'' f))
     (examplePlugin rts ''/app/build/server'' f)
   = (case fse_remove w ''/app/build/server'' of
        None \<Rightarrow> ([Remove ''/app/build/server'' None], Inr ())
      | Some e \<Rightarrow> ([Remove ''/app/build/server'' (Some e)], Inl (Rejected e)))"
  by (simp add: cleanServerBuildDirectory_def exampleVite_def examplePlugin_def isWithinRoot_def
      posix_def posix_relative_def startsWith_def posix_isAbsolute_def split: option.splits)




section \<open>The claims about the Bundle Assigner\<close>

lemma keys_mergeMatches: "fst ` set (mergeMatches rs ms) = fst ` set rs \<union> id' ` set ms"
  by (induction ms arbitrary: rs) (auto simp: dom_update)

lemma example_leaves:
  "getLeafRoutes exampleManifest = [mkRoute ''a'' (Some ''root''), mkRoute ''b'' (Some ''root'')]"
  by (simp add: getLeafRoutes_filter exampleManifest_def mkRoute_def)

lemma example_resolves:
  "\<forall>l \<in> set (getLeafRoutes exampleManifest). \<exists>ms. getRouteMatches exampleManifest (id' l) = Some (Inr ms)"
  by (simp add: example_leaves id'_mkRoute example_chain_a example_chain_b)

lemma posix_join_examples:
  "posix_join ''/app/build/server'' ''a'' = ''/app/build/server/a''"
  "posix_join ''/app/build/server'' ''b'' = ''/app/build/server/b''"
  "posix_join ''/app/build/server'' ''shared'' = ''/app/build/server/shared''"
  "posix_join ''/app/build/server'' ''x'' = ''/app/build/server/x''"
  "posix_join ''/app/build/server'' ''./x'' = ''/app/build/server/x''"
  "posix_join ''/app/build/server'' ''../../../etc/a'' = ''/etc/a''"
  "posix_join ''/app/build/server'' ''../../../etc/b'' = ''/etc/b''"
  by (simp_all add: posix_join_def posix_normalize_def posix_isAbsolute_def)

lemma example_byLeaf:
  "getServerBundles posix (examplePlugin exampleManifest ''/app/build/server'' (Some byLeaf))
   = Some (Inr [bundleA, bundleB])"
  by (simp add: getServerBundles_def examplePlugin_def example_leaves id'_mkRoute
      example_chain_a example_chain_b byLeaf_def posix_def posix_join_examples Let_def bundleA_def bundleB_def)


lemma example_escaping:
  "getServerBundles posix (examplePlugin exampleManifest ''/app/build/server'' (Some escaping))
   = Some (Inr [bundleA\<lparr>serverBuildDirectory := ''/etc/a''\<rparr>, bundleB\<lparr>serverBuildDirectory := ''/etc/b''\<rparr>])"
  by (simp add: getServerBundles_def examplePlugin_def example_leaves id'_mkRoute
      example_chain_a example_chain_b escaping_def posix_def posix_join_examples Let_def bundleA_def bundleB_def)

lemma example_twoSpellings:
  "getServerBundles posix (examplePlugin exampleManifest ''/app/build/server'' (Some twoSpellings))
   = Some (Inr [\<lparr>routes = [(''root'', mkRoute ''root'' None), (''a'', mkRoute ''a'' (Some ''root'')),
                            (''b'', mkRoute ''b'' (Some ''root''))],
                  serverBuildDirectory = ''/app/build/server/x''\<rparr>])"
  by (simp add: getServerBundles_def examplePlugin_def example_leaves id'_mkRoute
      example_chain_a example_chain_b twoSpellings_def posix_def posix_join_examples Let_def)

lemma groupedBundles_directories:
  "map serverBuildDirectory (groupedBundles np dir f rts leaves) =
   firstOccurrences (map (bundleKey np dir f rts) leaves)"
  by (simp add: groupedBundles_def bundleFor_def comp_def)

lemma groupedBundles_routes:
  "b \<in> set (groupedBundles np dir f rts leaves) \<Longrightarrow>
   routes b = mergeMatches []
     (concat (map (chainOf rts) (filter (\<lambda>l. bundleKey np dir f rts l = serverBuildDirectory b) leaves)))"
  by (auto simp: groupedBundles_def bundleFor_def)

lemma nested_leaves:
  "getLeafRoutes nestedManifest = [mkRoute ''y'' (Some ''x''), mkRoute ''z'' (Some ''root'')]"
  by (simp add: getLeafRoutes_filter nestedManifest_def mkRoute_def)

lemma nested_chains:
  "getRouteMatches nestedManifest ''y'' =
     Some (Inr [mkRoute ''root'' None, mkRoute ''x'' (Some ''root''), mkRoute ''y'' (Some ''x'')])"
  "getRouteMatches nestedManifest ''z'' =
     Some (Inr [mkRoute ''root'' None, mkRoute ''z'' (Some ''root'')])"
  by (simp_all add: getRouteMatches_def walkParents_Some walkParents_falsy nestedManifest_def
      mkRoute_def)

lemma nested_yApart:
  "getServerBundles posix (examplePlugin nestedManifest ''/out'' (Some yApart))
   = Some (Inr [\<lparr>routes = [(''root'', mkRoute ''root'' None), (''x'', mkRoute ''x'' (Some ''root'')),
                            (''y'', mkRoute ''y'' (Some ''x''))],
                  serverBuildDirectory = ''/out/b''\<rparr>,
                \<lparr>routes = [(''root'', mkRoute ''root'' None), (''z'', mkRoute ''z'' (Some ''root''))],
                  serverBuildDirectory = ''/out/a''\<rparr>])"
  by (simp add: getServerBundles_def examplePlugin_def nested_leaves id'_mkRoute nested_chains
      yApart_def posix_def posix_join_def posix_normalize_def posix_isAbsolute_def Let_def)

text \<open>
  Claim C4. With a classification function, \<^verbatim>\<open>getServerBundles\<close> returns bundles exactly when
  the match chain of every leaf resolves, and what it returns then is the grouping of
  the leaves, taken in the order of \<^verbatim>\<open>getLeafRoutes\<close>: the key of a leaf is the default
  output directory joined with what the classification function returns for the leaf
  and its chain, the directories of the bundles are these keys in the order of their
  first occurrence, and the routes of a bundle are the chains of the leaves with its
  key, merged by route id.
\<close>

theorem C4_bundles_in_first_occurrence_order:
  assumes "serverBundleDirectory cfg = Some f"
  shows "(getServerBundles np cfg = Some (Inr bs) \<longleftrightarrow>
            (\<forall>l \<in> set (getLeafRoutes (routes cfg)).
                \<exists>ms. getRouteMatches (routes cfg) (id' l) = Some (Inr ms)) \<and>
            bs = groupedBundles np (serverBuildDirectory cfg) f (routes cfg)
                   (getLeafRoutes (routes cfg))) \<and>
         map serverBuildDirectory
           (groupedBundles np (serverBuildDirectory cfg) f (routes cfg) (getLeafRoutes (routes cfg))) =
           firstOccurrences
             (map (\<lambda>l. join np (serverBuildDirectory cfg) (f l (chainOf (routes cfg) l)))
                (getLeafRoutes (routes cfg))) \<and>
         (\<forall>b \<in> set (groupedBundles np (serverBuildDirectory cfg) f (routes cfg)
                        (getLeafRoutes (routes cfg))).
            routes b =
              mergeMatches []
                (concat (map (chainOf (routes cfg))
                   (filter
                      (\<lambda>l. join np (serverBuildDirectory cfg) (f l (chainOf (routes cfg) l)) =
                           serverBuildDirectory b)
                      (getLeafRoutes (routes cfg))))) \<and>
            fst ` set (routes b) =
              id' ` (\<Union>l \<in> {l \<in> set (getLeafRoutes (routes cfg)).
                             join np (serverBuildDirectory cfg) (f l (chainOf (routes cfg) l)) =
                             serverBuildDirectory b}. set (chainOf (routes cfg) l)))"
proof -
  let ?bs = "groupedBundles np (serverBuildDirectory cfg) f (routes cfg) (getLeafRoutes (routes cfg))"
  have "getServerBundles np cfg = Some (Inr bs) \<longleftrightarrow>
            (\<forall>l \<in> set (getLeafRoutes (routes cfg)).
                \<exists>ms. getRouteMatches (routes cfg) (id' l) = Some (Inr ms)) \<and> bs = ?bs"
    using assms by (rule getServerBundles_Inr_iff)
  moreover have "map serverBuildDirectory ?bs =
             firstOccurrences
               (map (\<lambda>l. join np (serverBuildDirectory cfg) (f l (chainOf (routes cfg) l)))
                  (getLeafRoutes (routes cfg)))"
    using groupedBundles_directories[of np "serverBuildDirectory cfg" f "routes cfg"]
    by (simp add: bundleKey_def[abs_def])
  moreover have "routes b =
                mergeMatches []
                  (concat (map (chainOf (routes cfg))
                     (filter
                        (\<lambda>l. join np (serverBuildDirectory cfg) (f l (chainOf (routes cfg) l)) =
                             serverBuildDirectory b)
                        (getLeafRoutes (routes cfg)))))" if "b \<in> set ?bs" for b
    using groupedBundles_routes[OF that] by (simp add: bundleKey_def[abs_def])
  moreover have "fst ` set (routes b) =
                id' ` (\<Union>l \<in> {l \<in> set (getLeafRoutes (routes cfg)).
                               join np (serverBuildDirectory cfg) (f l (chainOf (routes cfg) l)) =
                               serverBuildDirectory b}. set (chainOf (routes cfg) l))" if "b \<in> set ?bs" for b
    using groupedBundles_routes[OF that] by (simp add: bundleKey_def[abs_def] keys_mergeMatches)
  ultimately show ?thesis by blast
qed

theorem C4_bundles_witness:
  "getServerBundles posix (examplePlugin nestedManifest ''/out'' (Some yApart))
     = Some (Inr [\<lparr>routes = [(''root'', mkRoute ''root'' None), (''x'', mkRoute ''x'' (Some ''root'')),
                              (''y'', mkRoute ''y'' (Some ''x''))],
                    serverBuildDirectory = ''/out/b''\<rparr>,
                  \<lparr>routes = [(''root'', mkRoute ''root'' None), (''z'', mkRoute ''z'' (Some ''root''))],
                    serverBuildDirectory = ''/out/a''\<rparr>]) \<and>
   [''/out/b'', ''/out/a''] =
     firstOccurrences
       (map (\<lambda>l. posix_join ''/out'' (yApart l (chainOf nestedManifest l)))
          (getLeafRoutes nestedManifest))"
proof -
  let ?cfg = "examplePlugin nestedManifest ''/out'' (Some yApart)"
  let ?bs = "[\<lparr>routes = [(''root'', mkRoute ''root'' None), (''x'', mkRoute ''x'' (Some ''root'')),
                              (''y'', mkRoute ''y'' (Some ''x''))],
                    serverBuildDirectory = ''/out/b''\<rparr>,
                  \<lparr>routes = [(''root'', mkRoute ''root'' None), (''z'', mkRoute ''z'' (Some ''root''))],
                    serverBuildDirectory = ''/out/a''\<rparr>]"
  have f: "serverBundleDirectory ?cfg = Some yApart" by (simp add: examplePlugin_def)
  have sel: "routes ?cfg = nestedManifest" "serverBuildDirectory ?cfg = ''/out''"
    "join posix = posix_join"
    by (simp_all add: examplePlugin_def posix_def)
  note inst = C4_bundles_in_first_occurrence_order[OF f, of posix ?bs, unfolded sel]
  from inst[THEN conjunct1] nested_yApart
  have "?bs = groupedBundles posix ''/out'' yApart nestedManifest (getLeafRoutes nestedManifest)"
    by simp
  with inst[THEN conjunct2, THEN conjunct1]
  have "map serverBuildDirectory ?bs =
     firstOccurrences
       (map (\<lambda>l. posix_join ''/out'' (yApart l (chainOf nestedManifest l)))
          (getLeafRoutes nestedManifest))"
    by simp
  with nested_yApart show ?thesis by simp
qed




text \<open>
  Claim C2, as amended. \<^verbatim>\<open>getServerBundles\<close> does not validate what the classification
  function returns. When the chain of every leaf resolves it returns bundles, whatever
  the function returns: the joined path of every leaf is the directory of a bundle as it
  is, also outside the default output directory, and leaves with equal joined paths
  share one bundle. The only error of \<^verbatim>\<open>getServerBundles\<close> is the failed route invariant of a
  leaf's walk.
\<close>

theorem C2_classifier_result_not_validated:
  "(serverBundleDirectory cfg = Some f \<and>
    (\<forall>l \<in> set (getLeafRoutes (routes cfg)).
        \<exists>ms. getRouteMatches (routes cfg) (id' l) = Some (Inr ms)) \<longrightarrow>
      (\<exists>bs. getServerBundles np cfg = Some (Inr bs) \<and> distinct (map serverBuildDirectory bs) \<and>
            set (map serverBuildDirectory bs) =
              (\<lambda>l. join np (serverBuildDirectory cfg) (f l (chainOf (routes cfg) l))) `
                set (getLeafRoutes (routes cfg)))) \<and>
   (getServerBundles np cfg = Some (Inl e) \<longrightarrow>
      (\<exists>l \<in> set (getLeafRoutes (routes cfg)). getRouteMatches (routes cfg) (id' l) = Some (Inl e)))"
proof (intro conjI impI)
  assume a: "serverBundleDirectory cfg = Some f \<and>
    (\<forall>l \<in> set (getLeafRoutes (routes cfg)).
        \<exists>ms. getRouteMatches (routes cfg) (id' l) = Some (Inr ms))"
  let ?bs = "groupedBundles np (serverBuildDirectory cfg) f (routes cfg) (getLeafRoutes (routes cfg))"
  from a have "getServerBundles np cfg = Some (Inr ?bs)"
    by (blast intro: getServerBundles_grouped)
  moreover have "distinct (map serverBuildDirectory ?bs)"
    by (simp add: groupedBundles_directories distinct_firstOccurrences)
  moreover have "set (map serverBuildDirectory ?bs) =
              (\<lambda>l. join np (serverBuildDirectory cfg) (f l (chainOf (routes cfg) l))) `
                set (getLeafRoutes (routes cfg))"
    by (simp add: groupedBundles_directories set_firstOccurrences bundleKey_def[abs_def])
  ultimately show "\<exists>bs. getServerBundles np cfg = Some (Inr bs) \<and> distinct (map serverBuildDirectory bs) \<and>
            set (map serverBuildDirectory bs) =
              (\<lambda>l. join np (serverBuildDirectory cfg) (f l (chainOf (routes cfg) l))) `
                set (getLeafRoutes (routes cfg))"
    by blast
next
  assume "getServerBundles np cfg = Some (Inl e)"
  then show "\<exists>l \<in> set (getLeafRoutes (routes cfg)). getRouteMatches (routes cfg) (id' l) = Some (Inl e)"
    by (auto simp: getServerBundles_Inl dest: assignLeaves_Inl_origin)
qed

theorem C2_not_validated_witness:
  "getServerBundles posix (examplePlugin exampleManifest ''/app/build/server'' (Some escaping))
     = Some (Inr [bundleA\<lparr>serverBuildDirectory := ''/etc/a''\<rparr>,
                  bundleB\<lparr>serverBuildDirectory := ''/etc/b''\<rparr>]) \<and>
   {''/etc/a'', ''/etc/b''} =
     (\<lambda>l. posix_join ''/app/build/server'' (escaping l (chainOf exampleManifest l))) `
        set (getLeafRoutes exampleManifest) \<and>
   getServerBundles posix (examplePlugin brokenManifest ''/app/build/server'' (Some escaping))
     = Some (Inl (InvariantFailed ''Missing route for ghost'')) \<and>
   (\<exists>l \<in> set (getLeafRoutes brokenManifest).
      getRouteMatches brokenManifest (id' l) = Some (Inl (InvariantFailed ''Missing route for ghost'')))"
proof -
  let ?cfg = "examplePlugin exampleManifest ''/app/build/server'' (Some escaping)"
  let ?broken = "examplePlugin brokenManifest ''/app/build/server'' (Some escaping)"
  have "serverBundleDirectory ?cfg = Some escaping \<and>
    (\<forall>l \<in> set (getLeafRoutes (routes ?cfg)).
        \<exists>ms. getRouteMatches (routes ?cfg) (id' l) = Some (Inr ms))"
    using example_resolves by (simp add: examplePlugin_def)
  with C2_classifier_result_not_validated[of ?cfg escaping posix, THEN conjunct1]
  obtain bs where "getServerBundles posix ?cfg = Some (Inr bs)"
    "set (map serverBuildDirectory bs) =
       (\<lambda>l. join posix (serverBuildDirectory ?cfg) (escaping l (chainOf (routes ?cfg) l))) `
          set (getLeafRoutes (routes ?cfg))"
    by blast
  moreover have "routes ?cfg = exampleManifest" "serverBuildDirectory ?cfg = ''/app/build/server''"
    "join posix = posix_join"
    by (simp_all add: examplePlugin_def posix_def)
  ultimately have "bs = [bundleA\<lparr>serverBuildDirectory := ''/etc/a''\<rparr>,
                  bundleB\<lparr>serverBuildDirectory := ''/etc/b''\<rparr>]"
    and "set (map serverBuildDirectory bs) =
     (\<lambda>l. posix_join ''/app/build/server'' (escaping l (chainOf exampleManifest l))) `
        set (getLeafRoutes exampleManifest)"
    using example_escaping by simp_all
  then have first: "{''/etc/a'', ''/etc/b''} =
     (\<lambda>l. posix_join ''/app/build/server'' (escaping l (chainOf exampleManifest l))) `
        set (getLeafRoutes exampleManifest)"
    by simp
  have broken: "getServerBundles posix ?broken = Some (Inl (InvariantFailed ''Missing route for ghost''))"
    by (simp add: getServerBundles_def examplePlugin_def broken_leaves id'_mkRoute broken_walk)
  with C2_classifier_result_not_validated[of ?broken _ posix "InvariantFailed ''Missing route for ghost''", THEN conjunct2]
  have "\<exists>l \<in> set (getLeafRoutes brokenManifest).
      getRouteMatches brokenManifest (id' l) = Some (Inl (InvariantFailed ''Missing route for ghost''))"
    by (simp add: examplePlugin_def)
  with first broken example_escaping show ?thesis by blast
qed

text \<open>
  Claim C2 as stated fails: a classification function whose results lead out of the
  default output directory gets its bundles under \<^verbatim>\<open>/etc\<close>, and one that spells the same
  directory differently for two leaves gets both leaves merged into one bundle, in both
  cases without an error.
\<close>

theorem C2_escape_and_collision_counterexample:
  "getServerBundles posix (examplePlugin exampleManifest ''/app/build/server'' (Some escaping))
     = Some (Inr [bundleA\<lparr>serverBuildDirectory := ''/etc/a''\<rparr>,
                  bundleB\<lparr>serverBuildDirectory := ''/etc/b''\<rparr>]) \<and>
   posix_relative ''/app/build/server'' ''/etc/a'' = ''../../../etc/a'' \<and>
   twoSpellings (mkRoute ''a'' (Some ''root'')) [] \<noteq> twoSpellings (mkRoute ''b'' (Some ''root'')) [] \<and>
   getServerBundles posix (examplePlugin exampleManifest ''/app/build/server'' (Some twoSpellings))
     = Some (Inr [\<lparr>routes = exampleManifest, serverBuildDirectory = ''/app/build/server/x''\<rparr>])"
  using example_escaping example_twoSpellings
  by (simp add: posix_relative_def twoSpellings_def id'_mkRoute exampleManifest_def)

section \<open>The claims about the build\<close>

lemma sorted_const: "\<forall>x \<in> set xs. f x = (c::nat) \<Longrightarrow> sorted (map f xs)"
  by (induction xs) auto

lemma sorted_three_phases:
  assumes "\<forall>x \<in> set xs. phase x = 1" and "\<forall>y \<in> set ys. phase y = 2" and "\<forall>z \<in> set zs. phase z = 3"
  shows "sorted (map phase (xs @ ys @ zs))"
  using assms sorted_const[OF assms(1)] sorted_const[OF assms(2)] sorted_const[OF assms(3)]
  by (auto simp: sorted_append)

lemma clean_phase: "\<forall>ev \<in> set (fst (cleanServerBuildDirectory np w vc cfg)). phase ev = 1"
  using clean_cases[of np w vc cfg] by auto

lemma client_phase: "\<forall>ev \<in> set (fst (viteBuildClient w)). phase ev = 2"
  using client_cases[of w] by auto

lemma build_events:
  assumes "build np w vc = Some (evs, res)"
  shows "\<exists>xs ys zs. evs = xs @ ys @ zs \<and> (\<forall>x \<in> set xs. phase x = 1) \<and> (\<forall>y \<in> set ys. phase y = 2) \<and>
           (\<forall>z \<in> set zs. phase z = 3) \<and> (zs \<noteq> [] \<longrightarrow> Settled None None \<in> set ys)"
proof (cases "remixPluginResolvedConfig vc")
  case None
  with assms have "evs = [] @ [] @ []" by (simp add: build_def extractRemixPluginConfig_def)
  then show ?thesis by (metis empty_iff list.set(1))
next
  case (Some cfg)
  obtain evs1 r1 where c: "cleanServerBuildDirectory np w vc cfg = (evs1, r1)" by (cases "cleanServerBuildDirectory np w vc cfg")
  obtain evs2 r2 where v: "viteBuildClient w = (evs2, r2)" by (cases "viteBuildClient w")
  have p1: "\<forall>x \<in> set evs1. phase x = 1" using clean_phase[of np w vc cfg] c by simp
  have p2: "\<forall>x \<in> set evs2. phase x = 2" using client_phase[of w] v by simp
  show ?thesis
  proof (cases r1)
    case (Inl e)
    with assms Some c have "evs = evs1 @ [] @ []" by (simp add: build_def extractRemixPluginConfig_def)
    with p1 show ?thesis by (metis empty_iff list.set(1))
  next
    case r1: (Inr u)
    show ?thesis
    proof (cases r2)
      case (Inl e)
      with assms Some c v r1 have "evs = evs1 @ evs2 @ []" by (simp add: build_def extractRemixPluginConfig_def)
      with p1 p2 show ?thesis by (metis empty_iff list.set(1))
    next
      case r2: (Inr u')
      with v client_cases[of w] have ok: "Settled None None \<in> set evs2" by auto
      show ?thesis
      proof (cases "getServerBundles np cfg")
        case None
        with assms Some c v r1 r2 show ?thesis by (simp add: build_def extractRemixPluginConfig_def)
      next
        case got: (Some y)
        show ?thesis
        proof (cases y)
          case (Inl e)
          with assms Some c v r1 r2 got have "evs = evs1 @ evs2 @ []" by (simp add: build_def extractRemixPluginConfig_def)
          with p1 p2 show ?thesis by (metis empty_iff list.set(1))
        next
          case (Inr bs)
          with assms Some c v r1 r2 got have "evs = evs1 @ evs2 @ fst (viteBuildServers w bs)"
            by (auto simp: build_def extractRemixPluginConfig_def split: prod.splits)
          with p1 p2 ok servers_phase[of w bs] show ?thesis by blast
        qed
      qed
    qed
  qed
qed

lemma example_settleOrder:
  "settleOrder bundlesFailWorld [bundleA, bundleB] =
     [(bundleA, Some ''bundle a failed''), (bundleB, Some ''bundle b failed'')]"
  by (simp add: settleOrder_def world_sel)

lemma example_build_quiet:
  "build posix quietWorld (exampleVite None (examplePlugin exampleManifest ''/app/build/server'' (Some byLeaf)))
   = Some ([Remove ''/app/build/server'' None, ViteBuild None, Settled None None,
            ViteBuild (Some bundleA), ViteBuild (Some bundleB),
            Settled (Some bundleA) None, Settled (Some bundleB) None], Inr ())"
  by (simp add: build_def extractRemixPluginConfig_def example_guard example_byLeaf viteBuildClient_def viteBuildServers_def
      settleOrder_def world_sel exampleVite_sel)

lemma example_build_bundles_fail:
  "build posix bundlesFailWorld (exampleVite None (examplePlugin exampleManifest ''/app/build/server'' (Some byLeaf)))
   = Some ([Remove ''/app/build/server'' None, ViteBuild None, Settled None None,
            ViteBuild (Some bundleA), ViteBuild (Some bundleB),
            Settled (Some bundleA) (Some ''bundle a failed'')], Inl (Rejected ''bundle a failed''))"
  by (simp add: build_def extractRemixPluginConfig_def example_guard example_byLeaf viteBuildClient_def viteBuildServers_def
      example_settleOrder world_sel exampleVite_sel)

text \<open>
  Claim C3. The events of a build are ordered by phase: the removal of the output
  directory comes before the client build, and the client build has settled, and was
  fulfilled, before any server build is started. When the removal is rejected the build
  ends with that error after the removal alone, and when the client build is rejected
  it ends with that error after the client build: no server build is started.
\<close>

theorem C3_three_ordered_phases:
  "(build np w vc = Some (evs, res) \<longrightarrow>
      sorted (map phase evs) \<and> ((\<exists>ev \<in> set evs. phase ev = 3) \<longrightarrow> Settled None None \<in> set evs)) \<and>
   (remixPluginResolvedConfig vc = Some cfg \<and>
    cleanServerBuildDirectory np w vc cfg = (evs1, Inl e) \<longrightarrow>
      build np w vc = Some (evs1, Inl e) \<and> (\<forall>ev \<in> set evs1. phase ev = 1)) \<and>
   (remixPluginResolvedConfig vc = Some cfg \<and>
    cleanServerBuildDirectory np w vc cfg = (evs1, Inr ()) \<and> viteBuildClient w = (evs2, Inl e) \<longrightarrow>
      build np w vc = Some (evs1 @ evs2, Inl e) \<and> (\<forall>ev \<in> set (evs1 @ evs2). phase ev < 3))"
proof (intro conjI impI)
  assume b: "build np w vc = Some (evs, res)"
  from build_events[OF b] obtain xs ys zs where
    evs: "evs = xs @ ys @ zs" and p: "\<forall>x \<in> set xs. phase x = 1" "\<forall>y \<in> set ys. phase y = 2"
      "\<forall>z \<in> set zs. phase z = 3" and client: "zs \<noteq> [] \<longrightarrow> Settled None None \<in> set ys" by blast
  from p show "sorted (map phase evs)" unfolding evs by (rule sorted_three_phases)
  assume "\<exists>ev \<in> set evs. phase ev = 3"
  with evs p have "zs \<noteq> []" by auto
  with client evs show "Settled None None \<in> set evs" by simp
next
  assume a: "remixPluginResolvedConfig vc = Some cfg \<and>
    cleanServerBuildDirectory np w vc cfg = (evs1, Inl e)"
  then show "build np w vc = Some (evs1, Inl e)" by (simp add: build_def extractRemixPluginConfig_def)
  from a clean_phase[of np w vc cfg] show "\<forall>ev \<in> set evs1. phase ev = 1" by simp
next
  assume a: "remixPluginResolvedConfig vc = Some cfg \<and>
    cleanServerBuildDirectory np w vc cfg = (evs1, Inr ()) \<and> viteBuildClient w = (evs2, Inl e)"
  then show "build np w vc = Some (evs1 @ evs2, Inl e)" by (simp add: build_def extractRemixPluginConfig_def)
  from a clean_phase[of np w vc cfg] client_phase[of w]
  show "\<forall>ev \<in> set (evs1 @ evs2). phase ev < 3" by auto
qed

theorem C3_three_phases_witness:
  "sorted (map phase
     [Remove ''/app/build/server'' None, ViteBuild None, Settled None None,
      ViteBuild (Some bundleA), ViteBuild (Some bundleB),
      Settled (Some bundleA) None, Settled (Some bundleB) None]) \<and>
   build posix lockedWorld
     (exampleVite None (examplePlugin exampleManifest ''/app/build/server'' (Some byLeaf)))
     = Some ([Remove ''/app/build/server'' (Some ''EACCES'')], Inl (Rejected ''EACCES'')) \<and>
   build posix clientFailsWorld
     (exampleVite None (examplePlugin exampleManifest ''/app/build/server'' (Some byLeaf)))
     = Some ([Remove ''/app/build/server'' None] @
             [ViteBuild None, Settled None (Some ''client failed'')],
             Inl (Rejected ''client failed''))"
proof -
  let ?cfg = "examplePlugin exampleManifest ''/app/build/server'' (Some byLeaf)"
  let ?vc = "exampleVite None ?cfg"
  have "sorted (map phase
     [Remove ''/app/build/server'' None, ViteBuild None, Settled None None,
      ViteBuild (Some bundleA), ViteBuild (Some bundleB),
      Settled (Some bundleA) None, Settled (Some bundleB) None])"
    using C3_three_ordered_phases[THEN conjunct1, rule_format, OF example_build_quiet] by blast
  moreover have "remixPluginResolvedConfig ?vc = Some ?cfg \<and>
    cleanServerBuildDirectory posix lockedWorld ?vc ?cfg
      = ([Remove ''/app/build/server'' (Some ''EACCES'')], Inl (Rejected ''EACCES''))"
    by (simp add: example_guard world_sel exampleVite_sel)
  then have "build posix lockedWorld ?vc
      = Some ([Remove ''/app/build/server'' (Some ''EACCES'')], Inl (Rejected ''EACCES''))"
    using C3_three_ordered_phases[THEN conjunct2, THEN conjunct1, rule_format] by blast
  moreover have "remixPluginResolvedConfig ?vc = Some ?cfg \<and>
    cleanServerBuildDirectory posix clientFailsWorld ?vc ?cfg
      = ([Remove ''/app/build/server'' None], Inr ()) \<and>
    viteBuildClient clientFailsWorld
      = ([ViteBuild None, Settled None (Some ''client failed'')], Inl (Rejected ''client failed''))"
    by (simp add: example_guard world_sel exampleVite_sel viteBuildClient_def)
  then have "build posix clientFailsWorld ?vc
      = Some ([Remove ''/app/build/server'' None] @
              [ViteBuild None, Settled None (Some ''client failed'')],
              Inl (Rejected ''client failed''))"
    using C3_three_ordered_phases[THEN conjunct2, THEN conjunct2, rule_format] by blast
  ultimately show ?thesis by blast
qed



lemma build_first_rejection:
  assumes "remixPluginResolvedConfig vc = Some cfg"
    and "cleanServerBuildDirectory np w vc cfg = (evs1, Inr ())"
    and "viteBuildClient w = (evs2, Inr ())"
    and "getServerBundles np cfg = Some (Inr bundles)"
    and "settleOrder w bundles = ok @ (b, Some e) # later"
    and "\<forall>(b', out) \<in> set ok. out = None"
  shows "build np w vc =
         Some (evs1 @ evs2 @ map (\<lambda>b. ViteBuild (Some b)) bundles @
               map (\<lambda>(b', out). Settled (Some b') None) ok @ [Settled (Some b) (Some e)],
               Inl (Rejected e))"
  using assms(1-5) awaitSettled_first_failure[OF assms(6), of b e later]
  by (simp add: build_def extractRemixPluginConfig_def viteBuildServers_def)

text \<open>
  Claim C1, as amended. When the guard and the client build succeed and the build of a
  bundle is rejected, all bundle builds have been started, and the build is rejected as
  soon as the first rejected bundle build settles, one of least time among the rejected
  ones: it has waited for the bundle builds that settled before, all of them fulfilled,
  and not for those that settle later, and its error is the reason of that one
  rejection.
\<close>

theorem C1_rejected_at_first_failure:
  assumes "remixPluginResolvedConfig vc = Some cfg"
    and "cleanServerBuildDirectory np w vc cfg = (evs1, Inr ())"
    and "viteBuildClient w = (evs2, Inr ())"
    and "getServerBundles np cfg = Some (Inr bundles)"
    and "\<exists>b \<in> set bundles. snd (vite_build w (Some b)) \<noteq> None"
  shows "\<exists>ok b e later.
           settleOrder w bundles = ok @ (b, Some e) # later \<and>
           (\<forall>(b', out) \<in> set ok. out = None) \<and>
           b \<in> set bundles \<and> snd (vite_build w (Some b)) = Some e \<and>
           (\<forall>b' \<in> set bundles. snd (vite_build w (Some b')) \<noteq> None \<longrightarrow>
               fst (vite_build w (Some b)) \<le> fst (vite_build w (Some b'))) \<and>
           build np w vc =
             Some (evs1 @ evs2 @ map (\<lambda>b. ViteBuild (Some b)) bundles @
                   map (\<lambda>(b', out). Settled (Some b') None) ok @ [Settled (Some b) (Some e)],
                   Inl (Rejected e))"
proof -
  from settleOrder_split[OF assms(5)] obtain ok b e later where
    s: "settleOrder w bundles = ok @ (b, Some e) # later" "\<forall>(b', out) \<in> set ok. out = None"
      "b \<in> set bundles" "snd (vite_build w (Some b)) = Some e"
      "\<forall>b' \<in> set bundles. snd (vite_build w (Some b')) \<noteq> None \<longrightarrow>
               fst (vite_build w (Some b)) \<le> fst (vite_build w (Some b'))"
    by blast
  from build_first_rejection[OF assms(1-4) s(1,2)] s show ?thesis by blast
qed

theorem C1_first_failure_witness:
  "\<exists>ok b e later.
     settleOrder bundlesFailWorld [bundleA, bundleB] = ok @ (b, Some e) # later \<and>
     build posix bundlesFailWorld
       (exampleVite None (examplePlugin exampleManifest ''/app/build/server'' (Some byLeaf)))
       = Some ([Remove ''/app/build/server'' None] @ [ViteBuild None, Settled None None] @
               map (\<lambda>b. ViteBuild (Some b)) [bundleA, bundleB] @
               map (\<lambda>(b', out). Settled (Some b') None) ok @ [Settled (Some b) (Some e)],
               Inl (Rejected e))"
proof -
  let ?cfg = "examplePlugin exampleManifest ''/app/build/server'' (Some byLeaf)"
  let ?vc = "exampleVite None ?cfg"
  have "remixPluginResolvedConfig ?vc = Some ?cfg"
    "cleanServerBuildDirectory posix bundlesFailWorld ?vc ?cfg = ([Remove ''/app/build/server'' None], Inr ())"
    "viteBuildClient bundlesFailWorld = ([ViteBuild None, Settled None None], Inr ())"
    "getServerBundles posix ?cfg = Some (Inr [bundleA, bundleB])"
    "\<exists>b \<in> set [bundleA, bundleB]. snd (vite_build bundlesFailWorld (Some b)) \<noteq> None"
    by (simp_all add: example_guard world_sel exampleVite_sel viteBuildClient_def example_byLeaf)
  from C1_rejected_at_first_failure[OF this] show ?thesis by blast
qed

text \<open>
  Claim C1 as stated fails when the builds of two bundles are rejected, at times 1 and
  2: the build is rejected with the first reason before the second build has settled,
  and the second reason is not reported.
\<close>

theorem C1_second_failure_unreported_counterexample:
  "build posix bundlesFailWorld
     (exampleVite None (examplePlugin exampleManifest ''/app/build/server'' (Some byLeaf)))
     = Some ([Remove ''/app/build/server'' None, ViteBuild None, Settled None None,
              ViteBuild (Some bundleA), ViteBuild (Some bundleB),
              Settled (Some bundleA) (Some ''bundle a failed'')],
             Inl (Rejected ''bundle a failed'')) \<and>
   vite_build bundlesFailWorld (Some bundleB) = (2, Some ''bundle b failed'') \<and>
   Settled (Some bundleB) (Some ''bundle b failed'') \<notin>
     set [Remove ''/app/build/server'' None, ViteBuild None, Settled None None,
          ViteBuild (Some bundleA), ViteBuild (Some bundleB),
          Settled (Some bundleA) (Some ''bundle a failed'')]"
proof -
  have "bundleA \<noteq> bundleB" by (simp add: bundleA_def bundleB_def)
  then show ?thesis using example_build_bundles_fail by (simp add: world_sel)
qed

end
